theory Spec2Isabelle
  imports Complex_Main "HOL-Library.Multiset"
begin

section \<open>The numeric core of the budget simulation charts\<close>

text \<open>
  The repository holds two versions of the component \<open>SimulationChart\<close>: the earlier
  one (\<open>components/Charts.tsx\<close>) with the views "totals" and "deltas", and the later
  one with the views treemap, stacked and waterfall. Both share the helper \<open>round\<close>,
  the reduction \<open>aggregatedData\<close> and the formatter \<open>formatValue\<close>.

  Names. \<open>round\<close> is \<open>round_dp\<close> here, the field \<open>text\<close> of the theme is
  \<open>text_color\<close> and the field \<open>size\<close> of a treemap node is \<open>size_key\<close>, since HOL
  and Isar have these names already. \<open>aggregatedData\<close> is the result of the
  reduction and \<open>aggregatedData_sorted\<close> the same array after the later version has
  appended the investment and sorted it.
\<close>

subsection \<open>Numbers\<close>

text \<open>A JavaScript \<open>number\<close> is a binary64 number. A finite one is \<open>m \<times> 2\<^sup>e\<close> with
  an integer \<open>|m| < 2\<^sup>5\<^sup>3\<close>, and it is modelled as that real number. The result of
  \<open>+\<close>, \<open>*\<close>, \<open>/\<close> and the value of a decimal literal are the exact number rounded
  to the nearest binary64 number, to the one with the even \<open>m\<close> of two equally near:
  \<open>fl64\<close> is that rounding, and every arithmetic operation of the source is followed
  by it. \<open>floor_log2 y\<close> is \<open>\<lfloor>log\<^sub>2 y\<rfloor>\<close> for a positive \<open>y\<close>, found from the number of
  bits of an integer. Comparisons and \<open>Math.abs\<close> are exact. \<open>NaN\<close>, the infinities,
  the sign of zero, overflow and the subnormal numbers are not modelled: the numbers
  are those of a magnitude between \<open>2\<^sup>-\<^sup>1\<^sup>0\<^sup>2\<^sup>2\<close> and \<open>2\<^sup>1\<^sup>0\<^sup>2\<^sup>4\<close>, and zero.\<close>

fun bit_length :: "nat \<Rightarrow> nat" where
  "bit_length n = (if n = 0 then 0 else Suc (bit_length (n div 2)))"

declare bit_length.simps [simp del]

definition floor_log2 :: "real \<Rightarrow> int" where
  "floor_log2 y =
     (if 1 \<le> y then int (bit_length (nat \<lfloor>y\<rfloor>)) - 1
      else - int (bit_length (nat (\<lceil>1 / y\<rceil> - 1))))"

definition round_ties_even :: "real \<Rightarrow> int" where
  "round_ties_even y =
     (let n = \<lfloor>y\<rfloor>; r = y - of_int n in
      if r < 1 / 2 then n else if 1 / 2 < r then n + 1 else if even n then n else n + 1)"

definition fl64 :: "real \<Rightarrow> real" where
  "fl64 x =
     (if x = 0 then 0
      else let e = floor_log2 \<bar>x\<bar> - 52;
               n = round_ties_even (\<bar>x\<bar> / 2 powi e)
           in sgn x * of_int n * 2 powi e)"

subsection \<open>Data\<close>

record BudgetLine =
  category :: string
  originalAmount :: real
  adjustment :: real

record CategorySummary =
  name :: string
  original :: real
  final :: real
  adjustment :: real

record ThemePalette =
  primary :: string
  highRisk :: string
  lowRisk :: string
  mediumRisk :: string
  text_color :: string

subsection \<open>The helper \<open>round\<close>\<close>

text \<open>\<open>Math.round\<close> returns the integer nearest to its argument, and of two equally
  near integers the one towards \<open>+\<infinity>\<close>: it is \<open>\<lfloor>x + 1/2\<rfloor>\<close>, computed exactly, and
  the integer is a binary64 number again. \<open>Math.pow(10, decimalPrecision)\<close> is taken as
  the power of ten rounded to binary64, for an integer \<open>decimalPrecision\<close>. The product
  and the quotient of \<open>round\<close> are binary64 operations.\<close>

definition Math_round :: "real \<Rightarrow> int" where
  "Math_round x = \<lfloor>x + 1 / 2\<rfloor>"

definition factor :: "int \<Rightarrow> real" where
  "factor decimalPrecision = fl64 (10 powi decimalPrecision)"

definition round_dp :: "int \<Rightarrow> real \<Rightarrow> real" where
  "round_dp decimalPrecision val =
     fl64 (of_int (Math_round (fl64 (val * factor decimalPrecision))) / factor decimalPrecision)"

subsection \<open>\<open>aggregatedData\<close>: one summary per category\<close>

text \<open>\<open>acc.find\<close> returns the first summary of the category, and the assignments to
  \<open>existing\<close> change that object inside the array: the first match is replaced, the
  order of the array stays.\<close>

fun update_first :: "('a \<Rightarrow> bool) \<Rightarrow> ('a \<Rightarrow> 'a) \<Rightarrow> 'a list \<Rightarrow> 'a list" where
  "update_first P f [] = []"
| "update_first P f (x # xs) = (if P x then f x # xs else x # update_first P f xs)"

definition reduce_step :: "int \<Rightarrow> CategorySummary list \<Rightarrow> BudgetLine \<Rightarrow> CategorySummary list" where
  "reduce_step p acc cur =
     (let lineFinal = round_dp p (fl64 (originalAmount cur + BudgetLine.adjustment cur)) in
      case find (\<lambda>item. name item = category cur) acc of
        Some _ \<Rightarrow>
          update_first (\<lambda>item. name item = category cur)
            (\<lambda>existing. existing
               \<lparr>original := round_dp p (fl64 (original existing + originalAmount cur)),
                final := round_dp p (fl64 (final existing + lineFinal)),
                adjustment :=
                  round_dp p (fl64 (adjustment existing + BudgetLine.adjustment cur))\<rparr>)
            acc
      | None \<Rightarrow>
          acc @ [\<lparr>name = category cur,
                  original = round_dp p (originalAmount cur),
                  final = lineFinal,
                  adjustment = round_dp p (BudgetLine.adjustment cur)\<rparr>])"

definition aggregatedData :: "int \<Rightarrow> BudgetLine list \<Rightarrow> CategorySummary list" where
  "aggregatedData p data = foldl (reduce_step p) [] data"


text \<open>The later version appends the synthetic summary of the new investment
  (\<open>newInvestment\<close> is optional and defaults to 0) and then sorts the array in place,
  largest \<open>final\<close> first. \<open>Array.prototype.sort\<close> is stable, and the sign of the
  binary64 difference \<open>b.final - a.final\<close> is the sign of the exact one.\<close>

definition injectInvestment :: "int \<Rightarrow> real option \<Rightarrow> CategorySummary list \<Rightarrow> CategorySummary list" where
  "injectInvestment p newInvestment agg =
     (let amount = (case newInvestment of None \<Rightarrow> 0 | Some v \<Rightarrow> v) in
      if amount \<noteq> 0 \<and> amount > 0
      then agg @ [\<lparr>name = ''Nieuwe Investering'',
                   original = 0,
                   final = round_dp p amount,
                   adjustment = round_dp p amount\<rparr>]
      else agg)"

definition aggregatedData_sorted :: "int \<Rightarrow> real option \<Rightarrow> BudgetLine list \<Rightarrow> CategorySummary list" where
  "aggregatedData_sorted p newInvestment data =
     sort_key (\<lambda>d. - final d) (injectInvestment p newInvestment (aggregatedData p data))"

subsection \<open>The views of the earlier version\<close>

text \<open>The comparators \<open>b.adjustment - a.adjustment\<close> and \<open>b.final - a.final\<close> order
  two summaries by the sign of a binary64 difference, which is the sign of the exact
  difference; the stable sort with such a comparator is the stable sort by the negated
  key. The filter compares \<open>Math.abs(d.adjustment)\<close> with 0.\<close>

definition deltaData :: "CategorySummary list \<Rightarrow> CategorySummary list" where
  "deltaData agg = sort_key (\<lambda>d. - adjustment d) (filter (\<lambda>d. \<bar>adjustment d\<bar> > 0) agg)"

definition totalData :: "CategorySummary list \<Rightarrow> CategorySummary list" where
  "totalData agg = sort_key (\<lambda>d. - final d) agg"

subsection \<open>Treemap and stacked rows\<close>

record TreemapNode = CategorySummary +
  size_key :: real

definition treemapData :: "CategorySummary list \<Rightarrow> TreemapNode list" where
  "treemapData agg =
     map (\<lambda>d. \<lparr>name = name d, original = original d, final = final d,
                adjustment = adjustment d, size_key = final d\<rparr>)
         (filter (\<lambda>d. final d > 0) agg)"

text \<open>A bar of the stacked chart is an object whose property \<open>name\<close> holds the label
  and whose other properties are keyed by category. An assignment \<open>obj[k] = v\<close> of a
  number \<open>v\<close> stores the property, except for the key \<open>__proto__\<close>, where a value
  that is not an object is ignored.\<close>

datatype JsValue = Str string | Num real

type_synonym JsObject = "string \<rightharpoonup> JsValue"

definition setProp :: "JsObject \<Rightarrow> string \<Rightarrow> real \<Rightarrow> JsObject" where
  "setProp obj k v = (if k = ''__proto__'' then obj else obj(k \<mapsto> Num v))"

definition stacked_step :: "JsObject \<times> JsObject \<Rightarrow> CategorySummary \<Rightarrow> JsObject \<times> JsObject" where
  "stacked_step bars item =
     (case bars of (originalBar, finalBar) \<Rightarrow>
        (if original item > 0 then setProp originalBar (name item) (original item) else originalBar,
         if final item > 0 then setProp finalBar (name item) (final item) else finalBar))"

definition getStackedData :: "CategorySummary list \<Rightarrow> JsObject \<times> JsObject" where
  "getStackedData agg =
     foldl stacked_step
       ([''name'' \<mapsto> Str ''Origineel Budget''], [''name'' \<mapsto> Str ''Nieuw Budget''])
       agg"

subsection \<open>Waterfall\<close>

datatype WaterfallPoint =
    Total string real string
  | Step string "real \<times> real" real string

text \<open>\<open>Total name uv fill\<close> is a point of type \<open>total\<close>, \<open>Step name range adjustment fill\<close>
  one of type \<open>step\<close>.\<close>

definition waterfall_step ::
  "ThemePalette \<Rightarrow> int \<Rightarrow> real \<times> WaterfallPoint list \<Rightarrow> CategorySummary \<Rightarrow> real \<times> WaterfallPoint list" where
  "waterfall_step theme p st step =
     (case st of (runningTotal, points) \<Rightarrow>
        let prevTotal = runningTotal;
            runningTotal' = round_dp p (fl64 (runningTotal + adjustment step));
            range = (min prevTotal runningTotal', max prevTotal runningTotal');
            fillColor = (if adjustment step > 0 then highRisk theme else lowRisk theme);
            fillColor' = (if name step = ''Nieuwe Investering'' then text_color theme
                          else fillColor)
        in (runningTotal', points @ [Step (name step) range (adjustment step) fillColor']))"

definition waterfall_steps :: "CategorySummary list \<Rightarrow> CategorySummary list" where
  "waterfall_steps agg = sort_key (\<lambda>d. - adjustment d) (filter (\<lambda>d. adjustment d \<noteq> 0) agg)"

definition getWaterfallData :: "ThemePalette \<Rightarrow> int \<Rightarrow> CategorySummary list \<Rightarrow> WaterfallPoint list" where
  "getWaterfallData theme p agg =
     (let totalOriginal = round_dp p (foldl (\<lambda>acc c. fl64 (acc + original c)) 0 agg);
          points = [Total ''Start (Origineel)'' totalOriginal ''#94a3b8''];
          steps = waterfall_steps agg
      in case foldl (waterfall_step theme p) (totalOriginal, points) steps of
           (runningTotal, points') \<Rightarrow> points' @ [Total ''Eind (Nieuw)'' runningTotal (primary theme)])"

text \<open>The running totals of the waterfall, to state its invariant: the total before
  the first step, followed by the total after each step.\<close>

fun running_totals :: "int \<Rightarrow> real \<Rightarrow> CategorySummary list \<Rightarrow> real list" where
  "running_totals p t [] = [t]"
| "running_totals p t (s # ss) =
     t # running_totals p (round_dp p (fl64 (t + adjustment s))) ss"


subsection \<open>\<open>formatValue\<close>\<close>

text \<open>The decimal digits of a natural number.\<close>

fun nat_digits :: "nat \<Rightarrow> string" where
  "nat_digits n =
     (if n < 10 then [''0123456789'' ! n]
      else nat_digits (n div 10) @ [''0123456789'' ! (n mod 10)])"

declare nat_digits.simps [simp del]









subsection \<open>Rounding each line once\<close>

text \<open>The second reading of the aggregation, written after the specification and not
  after the code: every line is rounded once, and the rounded values of the lines of
  one category are added exactly. \<open>summary_of p data c\<close> is the summary of the
  category \<open>c\<close> in that reading.\<close>

definition lines_of :: "string \<Rightarrow> BudgetLine list \<Rightarrow> BudgetLine list" where
  "lines_of c data = filter (\<lambda>l. category l = c) data"

definition summary_of :: "int \<Rightarrow> BudgetLine list \<Rightarrow> string \<Rightarrow> CategorySummary" where
  "summary_of p data c =
     \<lparr>name = c,
      original = (\<Sum>l\<leftarrow>lines_of c data. round_dp p (originalAmount l)),
      final = (\<Sum>l\<leftarrow>lines_of c data.
                 round_dp p (fl64 (originalAmount l + BudgetLine.adjustment l))),
      adjustment = (\<Sum>l\<leftarrow>lines_of c data. round_dp p (BudgetLine.adjustment l))\<rparr>"

subsection \<open>A number with one decimal, and with none\<close>



subsection \<open>Example inputs\<close>

text \<open>The lines of the example of the specification; four lines of one half each;
  two lines of one category with the amounts written \<open>1\<close> and \<open>0.005\<close>; a line whose
  category has the name of the synthetic summary; three summaries; three summaries
  with the adjustments \<open>2\<^sup>5\<^sup>3\<close>, 1 and 1; and a theme.\<close>

definition example_lines :: "BudgetLine list" where
  "example_lines =
     [\<lparr>category = ''A'', originalAmount = 100, adjustment = 10\<rparr>,
      \<lparr>category = ''A'', originalAmount = 50, adjustment = - 5\<rparr>,
      \<lparr>category = ''B'', originalAmount = 200, adjustment = 0\<rparr>]"


definition tie_lines :: "BudgetLine list" where
  "tie_lines =
     [\<lparr>category = ''A'', originalAmount = 1, adjustment = 0\<rparr>,
      \<lparr>category = ''A'', originalAmount = fl64 (5 / 1000), adjustment = 0\<rparr>]"

definition colliding_line :: "BudgetLine list" where
  "colliding_line =
     [\<lparr>category = ''Nieuwe Investering'', originalAmount = 100, adjustment = 0\<rparr>]"

definition example_summaries :: "CategorySummary list" where
  "example_summaries =
     [\<lparr>name = ''A'', original = 0, final = 5, adjustment = 5\<rparr>,
      \<lparr>name = ''B'', original = 200, final = 200, adjustment = 0\<rparr>,
      \<lparr>name = ''C'', original = 3, final = 0, adjustment = - 3\<rparr>]"

definition large_summaries :: "CategorySummary list" where
  "large_summaries =
     [\<lparr>name = ''A'', original = 0, final = 2 ^ 53, adjustment = 2 ^ 53\<rparr>,
      \<lparr>name = ''B'', original = 0, final = 1, adjustment = 1\<rparr>,
      \<lparr>name = ''C'', original = 0, final = 1, adjustment = 1\<rparr>]"

definition example_theme :: ThemePalette where
  "example_theme =
     \<lparr>primary = ''#0f172a'', highRisk = ''#dc2626'', lowRisk = ''#16a34a'',
      mediumRisk = ''#f59e0b'', text_color = ''#334155''\<rparr>"

section \<open>Properties\<close>

subsection \<open>Binary64 rounding\<close>

text \<open>\<open>fl64\<close> leaves a number \<open>i \<times> 2\<^sup>j\<close> with \<open>|i| < 2\<^sup>5\<^sup>3\<close> as it is: the binary64
  numbers are fixed points, and sums and products that are such numbers are exact.\<close>

lemma fl64_0 [simp]: "fl64 0 = 0"
  by (simp add: fl64_def)

lemma fl64_minus: "fl64 (- x) = - fl64 x"
  by (simp add: fl64_def Let_def sgn_minus)

lemma bit_length_bounds: "0 < n \<Longrightarrow> 2 ^ (bit_length n - 1) \<le> n \<and> n < 2 ^ bit_length n"
proof (induction n rule: bit_length.induct)
  case (1 n)
  show ?case
  proof (cases "n div 2 = 0")
    case True
    with "1.prems" have "n = 1" by presburger
    then show ?thesis by (simp add: bit_length.simps [of "Suc 0"] bit_length.simps [of 0])
  next
    case False
    then have pos: "0 < n div 2" by simp
    have b: "bit_length n = Suc (bit_length (n div 2))"
      using "1.prems" by (simp add: bit_length.simps [of n])
    have bp: "0 < bit_length (n div 2)"
      using pos by (simp add: bit_length.simps [of "n div 2"])
    from "1.IH" [OF _ pos] "1.prems"
    have ih: "2 ^ (bit_length (n div 2) - 1) \<le> n div 2" "n div 2 < 2 ^ bit_length (n div 2)"
      by simp_all
    have "2 ^ (bit_length n - 1) = 2 * 2 ^ (bit_length (n div 2) - 1)"
      using bp by (cases "bit_length (n div 2)") (simp_all add: b)
    also have "\<dots> \<le> 2 * (n div 2)" using ih(1) by simp
    also have "\<dots> \<le> n" by presburger
    finally have lo: "2 ^ (bit_length n - 1) \<le> n" .
    have "n < 2 * (n div 2) + 2" by presburger
    also have "\<dots> \<le> 2 * 2 ^ bit_length (n div 2)" using ih(2) by simp
    finally have hi: "n < 2 ^ bit_length n" by (simp add: b)
    from lo hi show ?thesis by simp
  qed
qed

lemma floor_log2_le:
  assumes "0 < y"
  shows "2 powi (floor_log2 y) \<le> y"
proof (cases "1 \<le> y")
  case True
  define n where "n = nat \<lfloor>y\<rfloor>"
  have n: "0 < n" "real n \<le> y" using True by (simp_all add: n_def)
  have b: "0 < bit_length n" using n(1) by (simp add: bit_length.simps [of n])
  have "floor_log2 y = int (bit_length n - 1)"
    using True b by (simp add: floor_log2_def n_def [symmetric] of_nat_diff)
  then have "2 powi (floor_log2 y) = (2::real) ^ (bit_length n - 1)" by simp
  also have "\<dots> = real (2 ^ (bit_length n - 1))" by simp
  also have "\<dots> \<le> real n" using bit_length_bounds [OF n(1)] by (simp only: of_nat_le_iff)
  finally show ?thesis using n(2) by linarith
next
  case False
  define m where "m = nat (\<lceil>1 / y\<rceil> - 1)"
  have y1: "1 < 1 / y" using False assms by simp
  then have c: "2 \<le> \<lceil>1 / y\<rceil>" by linarith
  then have mp: "0 < m" unfolding m_def by linarith
  have nn: "0 \<le> \<lceil>1 / y\<rceil> - 1" using c by linarith
  have "int m = \<lceil>1 / y\<rceil> - 1" unfolding m_def using nn by (rule nat_0_le)
  then have rm: "real m = of_int \<lceil>1 / y\<rceil> - 1" by (metis of_int_of_nat_eq of_int_diff of_int_1)
  have "1 / y \<le> of_int \<lceil>1 / y\<rceil>" by linarith
  also have "of_int \<lceil>1 / y\<rceil> = real m + 1" using rm by simp
  also have "real m + 1 \<le> real (2 ^ bit_length m)"
  proof -
    have "Suc m \<le> 2 ^ bit_length m" using bit_length_bounds [OF mp] by simp
    then have "real (Suc m) \<le> real (2 ^ bit_length m)" by (simp only: of_nat_le_iff)
    then show ?thesis by simp
  qed
  finally have le: "1 / y \<le> 2 ^ bit_length m" by simp
  have "floor_log2 y = - int (bit_length m)"
    using False by (simp add: floor_log2_def m_def)
  then have "(2::real) powi (floor_log2 y) = 1 / 2 ^ bit_length m"
    by (simp add: power_int_minus field_simps)
  also have "\<dots> \<le> y"
    using le assms by (simp add: field_simps)
  finally show ?thesis .
qed

lemma round_ties_even_int [simp]: "round_ties_even (of_int k) = k"
  by (simp add: round_ties_even_def)

lemma fl64_dyadic:
  assumes "\<bar>i\<bar> < 2 ^ 53"
  shows "fl64 (of_int i * 2 powi j) = of_int i * 2 powi j"
proof (cases "i = 0")
  case True
  then show ?thesis by simp
next
  case False
  define x :: real where "x = of_int i * 2 powi j"
  define L where "L = floor_log2 \<bar>x\<bar>"
  have a: "\<bar>x\<bar> = of_int \<bar>i\<bar> * 2 powi j" by (simp add: x_def abs_mult)
  have xpos: "0 < \<bar>x\<bar>" using False by (simp add: x_def)
  have "2 powi L \<le> \<bar>x\<bar>" unfolding L_def using xpos by (rule floor_log2_le)
  also have "\<bar>x\<bar> < 2 ^ 53 * 2 powi j"
    unfolding a using assms by (simp add: of_int_less_iff [symmetric] del: of_int_less_iff)
  also have "(2::real) ^ 53 * 2 powi j = 2 powi (53 + j)"
    by (simp add: power_int_add)
  finally have "(2::real) powi L < 2 powi (53 + j)" .
  have Lj: "L < 53 + j"
  proof (rule ccontr)
    assume "\<not> L < 53 + j"
    then have "(2::real) powi (53 + j) \<le> 2 powi L"
      by (intro power_int_increasing) simp_all
    with \<open>(2::real) powi L < 2 powi (53 + j)\<close> show False by simp
  qed
  define d where "d = nat (j - (L - 52))"
  have dj: "int d = j - (L - 52)" using Lj by (simp add: d_def)
  have q: "\<bar>x\<bar> / 2 powi (L - 52) = of_int (\<bar>i\<bar> * 2 ^ d)"
  proof -
    have "\<bar>x\<bar> / 2 powi (L - 52) = of_int \<bar>i\<bar> * (2 powi j / 2 powi (L - 52))"
      by (simp add: a)
    also have "2 powi j / 2 powi (L - 52) = (2::real) powi (j - (L - 52))"
      by (simp add: power_int_diff)
    also have "\<dots> = 2 ^ d" unfolding dj [symmetric] by simp
    finally show ?thesis by simp
  qed
  have "fl64 x = sgn x * of_int (\<bar>i\<bar> * 2 ^ d) * 2 powi (L - 52)"
    using xpos by (simp add: fl64_def Let_def L_def [symmetric] q del: of_int_mult of_int_power)
  also have "\<dots> = sgn x * (\<bar>x\<bar> / 2 powi (L - 52)) * 2 powi (L - 52)"
    by (simp only: q)
  also have "\<dots> = sgn x * \<bar>x\<bar>" by simp
  also have "\<dots> = x" by (simp add: sgn_mult_abs)
  finally show ?thesis by (simp add: x_def)
qed

lemma fl64_int: "\<bar>i\<bar> < 2 ^ 53 \<Longrightarrow> fl64 (of_int i) = of_int i"
  using fl64_dyadic [of i 0] by simp

lemma fl64_half_int: "\<bar>i\<bar> < 2 ^ 53 \<Longrightarrow> fl64 (of_int i / 2) = of_int i / 2"
  using fl64_dyadic [of i "- 1"] by (simp add: power_int_minus field_simps)

lemma factor_0 [simp]: "factor 0 = 1"
  using fl64_int [of 1] by (simp add: factor_def)

lemma round_dp_0_half_int:
  assumes "\<bar>i\<bar> < 2 ^ 53"
  shows "round_dp 0 (of_int i / 2) = of_int \<lfloor>of_int i / 2 + 1 / 2 :: real\<rfloor>"
proof -
  define m where "m = \<lfloor>of_int i / 2 + 1 / 2 :: real\<rfloor>"
  have "\<bar>m\<bar> < 2 ^ 53" using assms unfolding m_def by linarith
  then have "fl64 (of_int m) = of_int m" by (rule fl64_int)
  then show ?thesis
    by (simp add: round_dp_def Math_round_def fl64_half_int [OF assms] m_def)
qed

lemma round_dp_0_int:
  assumes "\<bar>i\<bar> < 2 ^ 53"
  shows "round_dp 0 (of_int i) = of_int i"
proof -
  have "\<lfloor>real_of_int i + 1 / 2\<rfloor> = i" by linarith
  then show ?thesis
    by (simp add: round_dp_def Math_round_def fl64_int [OF assms])
qed

text \<open>The definitions of the rounding and of the search for the shortest decimal, to be
  unfolded at numerals only.\<close>

lemmas fl64_numeral =
  fl64_def [of "numeral a"] fl64_def [of "numeral a / numeral b"] fl64_def [of 1]
  fl64_def [of "1 / numeral b"]
  floor_log2_def [of "numeral a"] floor_log2_def [of "numeral a / numeral b"] floor_log2_def [of 1]
  floor_log2_def [of "1 / numeral b"]
  round_ties_even_def [of "numeral a"] round_ties_even_def [of "numeral a / numeral b"]
  round_ties_even_def [of 1] round_ties_even_def [of "1 / numeral b"]
  bit_length.simps [of "numeral a"] bit_length.simps [of 0] bit_length.simps [of 1]
  bit_length.simps [of "Suc 0"] fl64_minus Let_def
  for a b

lemmas round_eval = round_dp_def factor_def Math_round_def fl64_numeral


subsection \<open>The reduction\<close>

lemma aggregatedData_snoc:
  "aggregatedData p (data @ [l]) = reduce_step p (aggregatedData p data) l"
  by (simp add: aggregatedData_def)

lemma find_name_None: "c \<notin> set (map name acc) \<Longrightarrow> find (\<lambda>item. name item = c) acc = None"
  by (induction acc) auto

lemma find_name_Some: "c \<in> set (map name acc) \<Longrightarrow> \<exists>d. find (\<lambda>item. name item = c) acc = Some d"
  by (induction acc) auto

lemma map_name_update_first:
  "(\<And>x. name (f x) = name x) \<Longrightarrow> map name (update_first P f acc) = map name acc"
  by (induction acc) auto

lemma names_reduce_step:
  "map name (reduce_step p acc l) =
     (if category l \<in> set (map name acc) then map name acc else map name acc @ [category l])"
proof (cases "category l \<in> set (map name acc)")
  case True
  from find_name_Some [OF True] obtain d where "find (\<lambda>item. name item = category l) acc = Some d" ..
  then show ?thesis using True
    by (simp add: reduce_step_def Let_def map_name_update_first)
next
  case False
  from find_name_None [OF False] show ?thesis using False
    by (simp add: reduce_step_def Let_def)
qed

lemma names_aggregatedData:
  "distinct (map name (aggregatedData p data)) \<and>
   set (map name (aggregatedData p data)) = category ` set data"
proof (induction data rule: rev_induct)
  case Nil
  show ?case by (simp add: aggregatedData_def)
next
  case (snoc l data)
  then show ?case
    by (auto simp: aggregatedData_snoc names_reduce_step)
qed

lemma names_distinct_without_collision:
  assumes "newInvestment = None \<or> (\<exists>v. newInvestment = Some v \<and> v \<le> 0)
           \<or> ''Nieuwe Investering'' \<notin> category ` set data"
  shows "distinct (map name (aggregatedData_sorted p newInvestment data))"
proof -
  have "distinct (map name (injectInvestment p newInvestment (aggregatedData p data)))"
    using assms names_aggregatedData [of p data]
    by (auto simp: injectInvestment_def Let_def split: option.splits)
  then show ?thesis
    by (simp add: aggregatedData_sorted_def distinct_map inj_on_def)
qed




subsection \<open>The fold of the waterfall\<close>

lemma running_totals_nonempty [simp]: "running_totals p t steps \<noteq> []"
  by (cases steps) simp_all

lemma running_totals_0 [simp]: "running_totals p t steps ! 0 = t"
  by (cases steps) simp_all

lemma length_running_totals [simp]: "length (running_totals p t steps) = Suc (length steps)"
  by (induction steps arbitrary: t) simp_all

lemma waterfall_fold:
  "\<exists>sp. foldl (waterfall_step theme p) (t, pts0) steps = (last (running_totals p t steps), pts0 @ sp)
      \<and> length sp = length steps
      \<and> (\<forall>i<length steps. \<exists>fill. sp ! i =
            Step (name (steps ! i))
                 (min (running_totals p t steps ! i) (running_totals p t steps ! Suc i),
                  max (running_totals p t steps ! i) (running_totals p t steps ! Suc i))
                 (adjustment (steps ! i)) fill)"
proof (induction steps arbitrary: t pts0)
  case Nil
  show ?case by simp
next
  case (Cons s ss)
  define t' where "t' = round_dp p (fl64 (t + adjustment s))"
  define fill where "fill = (if name s = ''Nieuwe Investering'' then text_color theme
                         else if adjustment s > 0 then highRisk theme else lowRisk theme)"
  define pt where "pt = Step (name s) (min t t', max t t') (adjustment s) fill"
  have st: "waterfall_step theme p (t, pts0) s = (t', pts0 @ [pt])"
    by (simp add: waterfall_step_def Let_def t'_def pt_def fill_def)
  from Cons.IH [of t' "pts0 @ [pt]"] obtain sp where
    f: "foldl (waterfall_step theme p) (t', pts0 @ [pt]) ss =
          (last (running_totals p t' ss), (pts0 @ [pt]) @ sp)"
    and l: "length sp = length ss"
    and n: "\<forall>i<length ss. \<exists>fill. sp ! i =
            Step (name (ss ! i))
                 (min (running_totals p t' ss ! i) (running_totals p t' ss ! Suc i),
                  max (running_totals p t' ss ! i) (running_totals p t' ss ! Suc i))
                 (adjustment (ss ! i)) fill"
    by blast
  have r: "running_totals p t (s # ss) = t # running_totals p t' ss" by (simp add: t'_def)
  have 1: "foldl (waterfall_step theme p) (t, pts0) (s # ss) =
           (last (running_totals p t (s # ss)), pts0 @ (pt # sp))"
    unfolding r using f st by simp
  have 2: "length (pt # sp) = length (s # ss)" using l by simp
  have 3: "\<exists>fill. (pt # sp) ! i =
            Step (name ((s # ss) ! i))
                 (min (running_totals p t (s # ss) ! i) (running_totals p t (s # ss) ! Suc i),
                  max (running_totals p t (s # ss) ! i) (running_totals p t (s # ss) ! Suc i))
                 (adjustment ((s # ss) ! i)) fill" if "i < length (s # ss)" for i
  proof (cases i)
    case 0
    then show ?thesis by (simp add: pt_def t'_def)
  next
    case (Suc j)
    with that have "j < length ss" by simp
    with n show ?thesis unfolding r Suc by simp
  qed
  from 1 2 3 show ?case by blast
qed

lemma sum_list_map_mset_cong:
  "mset xs = mset ys \<Longrightarrow> sum_list (map f xs) = sum_list (map (f :: 'a \<Rightarrow> real) ys)"
proof -
  assume "mset xs = mset ys"
  then have "mset (map f xs) = mset (map f ys)" by simp
  then have "sum_mset (mset (map f xs)) = sum_mset (mset (map f ys))" by simp
  then show ?thesis by (simp only: sum_mset_sum_list)
qed

text \<open>Integers whose magnitudes add up to less than \<open>2\<^sup>5\<^sup>3\<close> are added exactly.\<close>

lemma foldl_fl64_ints:
  assumes "a \<in> \<int>" "\<forall>x\<in>set xs. x \<in> \<int>" "\<bar>a\<bar> + (\<Sum>x\<leftarrow>xs. \<bar>x\<bar>) < 2 ^ 53"
  shows "foldl (\<lambda>acc x. fl64 (acc + x)) a xs = a + sum_list xs"
  using assms
proof (induction xs arbitrary: a)
  case Nil
  show ?case by simp
next
  case (Cons x xs)
  from Cons.prems obtain i j where ij: "a = of_int i" "x = of_int j"
    by (auto elim!: Ints_cases)
  have b: "\<bar>a + x\<bar> + (\<Sum>x\<leftarrow>xs. \<bar>x\<bar>) < 2 ^ 53" using Cons.prems(3) by simp
  have nn: "0 \<le> (\<Sum>x\<leftarrow>xs. \<bar>x\<bar>)" by (rule sum_list_nonneg) auto
  have "\<bar>real_of_int (i + j)\<bar> < 2 ^ 53" using b nn by (simp add: ij)
  then have "\<bar>i + j\<bar> < 2 ^ 53"
    by (metis of_int_abs of_int_less_iff of_int_numeral of_int_power)
  then have e: "fl64 (a + x) = a + x" using fl64_int [of "i + j"] by (simp add: ij)
  have "a + x \<in> \<int>" by (simp add: ij)
  from Cons.IH [OF this _ b] Cons.prems(2) show ?case by (simp add: e)
qed

lemma last_running_totals_ints:
  assumes "t \<in> \<int>" "\<forall>s\<in>set steps. adjustment s \<in> \<int>"
    "\<bar>t\<bar> + (\<Sum>s\<leftarrow>steps. \<bar>adjustment s\<bar>) < 2 ^ 53"
  shows "last (running_totals 0 t steps) = t + (\<Sum>s\<leftarrow>steps. adjustment s)"
  using assms
proof (induction steps arbitrary: t)
  case Nil
  show ?case by simp
next
  case (Cons s ss)
  from Cons.prems obtain i j where ij: "t = of_int i" "adjustment s = of_int j"
    by (auto elim!: Ints_cases)
  have b: "\<bar>t + adjustment s\<bar> + (\<Sum>s\<leftarrow>ss. \<bar>adjustment s\<bar>) < 2 ^ 53"
    using Cons.prems(3) by simp
  have nn: "0 \<le> (\<Sum>s\<leftarrow>ss. \<bar>adjustment s\<bar>)" by (rule sum_list_nonneg) auto
  have "\<bar>real_of_int (i + j)\<bar> < 2 ^ 53" using b nn by (simp add: ij)
  then have k: "\<bar>i + j\<bar> < 2 ^ 53"
    by (metis of_int_abs of_int_less_iff of_int_numeral of_int_power)
  have e: "round_dp 0 (fl64 (t + adjustment s)) = t + adjustment s"
    using fl64_int [OF k] round_dp_0_int [OF k] by (simp add: ij)
  have "t + adjustment s \<in> \<int>" by (simp add: ij)
  from Cons.IH [OF this _ b] Cons.prems(2) show ?case by (simp add: e)
qed

lemma sum_abs_filter_nonzero:
  "(\<Sum>s\<leftarrow>filter (\<lambda>d. adjustment d \<noteq> 0) agg. f (adjustment s)) + (\<Sum>s\<leftarrow>filter (\<lambda>d. adjustment d = 0) agg. f (adjustment s))
   = (\<Sum>s\<leftarrow>agg. (f (adjustment s) :: real))"
  by (induction agg) simp_all

lemma sum_waterfall_steps:
  assumes "f 0 = (0::real)"
  shows "(\<Sum>s\<leftarrow>waterfall_steps agg. f (adjustment s)) = (\<Sum>s\<leftarrow>agg. f (adjustment s))"
proof -
  have z: "(\<Sum>s\<leftarrow>filter (\<lambda>d. adjustment d = 0) agg. f (adjustment s)) = 0"
    by (induction agg) (simp_all add: assms)
  have "mset (waterfall_steps agg) = mset (filter (\<lambda>d. adjustment d \<noteq> 0) agg)"
    by (simp add: waterfall_steps_def)
  then have "(\<Sum>s\<leftarrow>waterfall_steps agg. f (adjustment s)) =
             (\<Sum>s\<leftarrow>filter (\<lambda>d. adjustment d \<noteq> 0) agg. f (adjustment s))"
    by (rule sum_list_map_mset_cong)
  then show ?thesis using sum_abs_filter_nonzero [of f agg] z by simp
qed

lemma set_waterfall_steps: "set (waterfall_steps agg) \<subseteq> set agg"
  by (auto simp: waterfall_steps_def)

subsection \<open>Lines of one half in distinct categories\<close>


lemma round_dp_0_half [simp]: "round_dp 0 (1 / 2) = 1"
  using round_dp_0_half_int [of 1] by simp

lemma fl64_half [simp]: "fl64 (1 / 2) = 1 / 2"
  using fl64_half_int [of 1] by simp




subsection \<open>Sorting, treemap and stacked rows\<close>

lemma sorted_desc_sort_key:
  fixes f :: "'a \<Rightarrow> real"
  shows "sorted_wrt (\<lambda>a b. f a \<ge> f b) (sort_key (\<lambda>d. - f d) xs)"
proof -
  have "sorted (map (\<lambda>d. - f d) (sort_key (\<lambda>d. - f d) xs))" by (rule sorted_sort_key)
  then show ?thesis by (simp add: sorted_wrt_map)
qed

lemma getStackedData_snoc: "getStackedData (agg @ [d]) = stacked_step (getStackedData agg) d"
  by (simp add: getStackedData_def)

lemma stacked_positive:
  "(\<forall>k v. fst (getStackedData agg) k = Some (Num v) \<longrightarrow> 0 < v) \<and>
   (\<forall>k v. snd (getStackedData agg) k = Some (Num v) \<longrightarrow> 0 < v)"
proof (induction agg rule: rev_induct)
  case Nil
  show ?case by (simp add: getStackedData_def)
next
  case (snoc d agg)
  obtain ob fb where g: "getStackedData agg = (ob, fb)" by (cases "getStackedData agg")
  with snoc show ?case
    by (auto simp: getStackedData_snoc stacked_step_def setProp_def split: if_splits)
qed

lemma stacked_keys:
  assumes "k \<noteq> ''name''" "k \<noteq> ''__proto__''"
  shows "(k \<in> dom (fst (getStackedData agg)) \<longleftrightarrow> (\<exists>d\<in>set agg. name d = k \<and> 0 < original d)) \<and>
         (k \<in> dom (snd (getStackedData agg)) \<longleftrightarrow> (\<exists>d\<in>set agg. name d = k \<and> 0 < final d))"
proof (induction agg rule: rev_induct)
  case Nil
  show ?case using assms by (auto simp: getStackedData_def dom_def)
next
  case (snoc d agg)
  obtain ob fb where g: "getStackedData agg = (ob, fb)" by (cases "getStackedData agg")
  with snoc assms show ?case
    by (auto simp: getStackedData_snoc stacked_step_def setProp_def split: if_splits)
qed

lemma totalData_sorted: "sorted_wrt (\<lambda>a b. final a \<ge> final b) (totalData agg)"
  unfolding totalData_def by (rule sorted_desc_sort_key)

lemma treemap_positive: "\<forall>n\<in>set (treemapData agg). 0 < final n \<and> size_key n = final n"
  by (auto simp: treemapData_def)

lemma treemap_names:
  "map CategorySummary.truncate (treemapData agg) = filter (\<lambda>d. 0 < final d) agg"
  by (induction agg) (auto simp: treemapData_def CategorySummary.truncate_def)

subsection \<open>Digits and \<open>toFixed\<close>\<close>

lemma nat_digits_nonempty [simp]: "nat_digits n \<noteq> []"
  by (subst nat_digits.simps) simp






subsection \<open>The magnitude of a rounded number\<close>



subsection \<open>The decimal that \<open>toString\<close> writes\<close>








section \<open>The claims\<close>

text \<open>C1. The result of the aggregation depends on the order of the lines. Two lines
  of the category A with the amounts \<open>1\<close> and \<open>0.005\<close> and no adjustment, at precision
  2: in this order \<open>1 + 0.005\<close> is the binary64 number next below 1.005, its hundredfold
  is below 100.5, and the summary has the original 1, next to the final 1.01 and the
  adjustment 0. In the other order the original is \<open>round(0.005) + 1\<close>, which is 1.01.
  The two lists of lines are permutations of each other, and the two sets of summaries
  differ, also after the later version has sorted them.\<close>

theorem aggregation_depends_on_order:
  "mset (rev tie_lines) = mset tie_lines
   \<and> aggregatedData 2 tie_lines =
       [\<lparr>name = ''A'', original = 1, final = fl64 (101 / 100), adjustment = 0\<rparr>]
   \<and> aggregatedData 2 (rev tie_lines) =
       [\<lparr>name = ''A'', original = fl64 (101 / 100), final = fl64 (101 / 100), adjustment = 0\<rparr>]
   \<and> set (aggregatedData 2 (rev tie_lines)) \<noteq> set (aggregatedData 2 tie_lines)
   \<and> set (aggregatedData_sorted 2 None (rev tie_lines))
       \<noteq> set (aggregatedData_sorted 2 None tie_lines)"
proof -
  have a: "aggregatedData 2 tie_lines =
       [\<lparr>name = ''A'', original = 1, final = fl64 (101 / 100), adjustment = 0\<rparr>]"
    by (simp add: aggregatedData_def reduce_step_def tie_lines_def round_eval)
  have b: "aggregatedData 2 (rev tie_lines) =
       [\<lparr>name = ''A'', original = fl64 (101 / 100), final = fl64 (101 / 100), adjustment = 0\<rparr>]"
    by (simp add: aggregatedData_def reduce_step_def tie_lines_def round_eval)
  have c: "fl64 (101 / 100) \<noteq> 1" by (simp add: fl64_numeral)
  have d: "set (aggregatedData 2 (rev tie_lines)) \<noteq> set (aggregatedData 2 tie_lines)"
    unfolding a b using c by simp
  have e: "set (aggregatedData_sorted 2 None (rev tie_lines))
       \<noteq> set (aggregatedData_sorted 2 None tie_lines)"
    unfolding aggregatedData_sorted_def a b using c by (simp add: injectInvestment_def)
  have "mset (rev tie_lines) = mset tie_lines" by simp
  with a b d e show ?thesis by blast
qed

text \<open>C2, as amended. The waterfall of any list of summaries starts with the total of
  the originals, added on binary64 and rounded, and ends with a total; between them
  there is one step for every summary with a non-zero adjustment, in the order of
  descending adjustment, and the range of a step is the minimum and the maximum of the
  running totals before and after it. The running total after a step is the rounded
  binary64 sum of the running total before it and the adjustment, and the last total
  is the running total after the last step. It is the first total plus the sum of the
  adjustments, in any order of the steps, when the binary64 sums are exact: at
  precision 0, for originals and adjustments that are integers whose magnitudes add up
  to less than \<open>2\<^sup>5\<^sup>3\<close>. In general it depends on the order of the steps.\<close>

theorem waterfall_sequence_invariant:
  "let T = round_dp p (foldl (\<lambda>acc c. fl64 (acc + original c)) 0 agg);
       steps = waterfall_steps agg;
       rs = running_totals p T steps;
       E = last rs
   in (\<exists>sp. getWaterfallData theme p agg =
               Total ''Start (Origineel)'' T ''#94a3b8'' # sp @ [Total ''Eind (Nieuw)'' E (primary theme)]
           \<and> length sp = length steps
           \<and> (\<forall>i<length steps. \<exists>fill. sp ! i =
                 Step (name (steps ! i))
                      (min (rs ! i) (rs ! Suc i), max (rs ! i) (rs ! Suc i))
                      (adjustment (steps ! i)) fill))
      \<and> mset steps = filter_mset (\<lambda>d. adjustment d \<noteq> 0) (mset agg)
      \<and> sorted_wrt (\<lambda>a b. adjustment a \<ge> adjustment b) steps
      \<and> (p = 0 \<and> (\<forall>d\<in>set agg. original d \<in> \<int> \<and> adjustment d \<in> \<int>)
          \<and> (\<Sum>d\<leftarrow>agg. \<bar>original d\<bar>) + (\<Sum>d\<leftarrow>agg. \<bar>adjustment d\<bar>) < 2 ^ 53 \<longrightarrow>
          T = (\<Sum>d\<leftarrow>agg. original d)
          \<and> E = T + (\<Sum>d\<leftarrow>agg. adjustment d)
          \<and> (\<forall>steps'. mset steps' = mset steps \<longrightarrow> last (running_totals p T steps') = E))"
proof -
  define T where "T = round_dp p (foldl (\<lambda>acc c. fl64 (acc + original c)) 0 agg)"
  define steps where "steps = waterfall_steps agg"
  define E where "E = last (running_totals p T steps)"
  obtain sp where
    f: "foldl (waterfall_step theme p) (T, [Total ''Start (Origineel)'' T ''#94a3b8'']) steps =
          (E, [Total ''Start (Origineel)'' T ''#94a3b8''] @ sp)"
    and l: "length sp = length steps"
    and n: "\<forall>i<length steps. \<exists>fill. sp ! i =
            Step (name (steps ! i))
                 (min (running_totals p T steps ! i) (running_totals p T steps ! Suc i),
                  max (running_totals p T steps ! i) (running_totals p T steps ! Suc i))
                 (adjustment (steps ! i)) fill"
    using waterfall_fold [of theme p T "[Total ''Start (Origineel)'' T ''#94a3b8'']" steps]
    unfolding E_def by blast
  have 1: "getWaterfallData theme p agg =
             Total ''Start (Origineel)'' T ''#94a3b8'' # sp @ [Total ''Eind (Nieuw)'' E (primary theme)]"
    using f by (simp add: getWaterfallData_def Let_def T_def [symmetric] steps_def [symmetric])
  have 2: "mset steps = filter_mset (\<lambda>d. adjustment d \<noteq> 0) (mset agg)"
    by (simp add: steps_def waterfall_steps_def)
  have 3: "sorted_wrt (\<lambda>a b. adjustment a \<ge> adjustment b) steps"
    unfolding steps_def waterfall_steps_def by (rule sorted_desc_sort_key)
  have 4: "T = (\<Sum>d\<leftarrow>agg. original d)
          \<and> E = T + (\<Sum>d\<leftarrow>agg. adjustment d)
          \<and> (\<forall>steps'. mset steps' = mset steps \<longrightarrow> last (running_totals p T steps') = E)"
    if h: "p = 0 \<and> (\<forall>d\<in>set agg. original d \<in> \<int> \<and> adjustment d \<in> \<int>)
          \<and> (\<Sum>d\<leftarrow>agg. \<bar>original d\<bar>) + (\<Sum>d\<leftarrow>agg. \<bar>adjustment d\<bar>) < 2 ^ 53"
  proof -
    from h have p: "p = 0"
      and io: "\<forall>x\<in>set (map original agg). x \<in> \<int>"
      and ia: "\<forall>d\<in>set agg. adjustment d \<in> \<int>"
      and b: "(\<Sum>d\<leftarrow>agg. \<bar>original d\<bar>) + (\<Sum>d\<leftarrow>agg. \<bar>adjustment d\<bar>) < 2 ^ 53"
      by auto
    define so where "so = (\<Sum>d\<leftarrow>agg. \<bar>original d\<bar>)"
    define sa where "sa = (\<Sum>d\<leftarrow>agg. \<bar>adjustment d\<bar>)"
    have so0: "0 \<le> so" unfolding so_def by (rule sum_list_nonneg) auto
    have sa0: "0 \<le> sa" unfolding sa_def by (rule sum_list_nonneg) auto
    have bb: "so + sa < 2 ^ 53" using b by (simp add: so_def sa_def)
    have abs_o: "\<bar>\<Sum>d\<leftarrow>agg. original d\<bar> \<le> so"
      unfolding so_def using sum_list_abs [of "map original agg"] by (simp add: comp_def)
    have "foldl (\<lambda>acc x. fl64 (acc + x)) 0 (map original agg) = 0 + sum_list (map original agg)"
    proof (rule foldl_fl64_ints)
      show "(0::real) \<in> \<int>" by simp
      show "\<forall>x\<in>set (map original agg). x \<in> \<int>" by (rule io)
      show "\<bar>0::real\<bar> + (\<Sum>x\<leftarrow>map original agg. \<bar>x\<bar>) < 2 ^ 53"
        using bb sa0 by (simp add: so_def comp_def)
    qed
    then have fo: "foldl (\<lambda>acc c. fl64 (acc + original c)) 0 agg = (\<Sum>d\<leftarrow>agg. original d)"
      by (simp add: foldl_map)
    have "(\<Sum>d\<leftarrow>agg. original d) \<in> \<int>" using io by (induction agg) simp_all
    then obtain k where k: "(\<Sum>d\<leftarrow>agg. original d) = of_int k" by (auto elim: Ints_cases)
    have "\<bar>real_of_int k\<bar> < 2 ^ 53" using abs_o bb sa0 by (simp add: k)
    then have kb: "\<bar>k\<bar> < 2 ^ 53"
      by (metis of_int_abs of_int_less_iff of_int_numeral of_int_power)
    have t: "T = (\<Sum>d\<leftarrow>agg. original d)"
      unfolding T_def fo p k by (rule round_dp_0_int [OF kb])
    have tz: "T \<in> \<int>" by (simp add: t k)
    have e: "last (running_totals p T steps') = T + (\<Sum>d\<leftarrow>agg. adjustment d)"
      if m: "mset steps' = mset steps" for steps'
    proof -
      have ms: "mset steps' = mset (waterfall_steps agg)" using m by (simp add: steps_def)
      have s1: "(\<Sum>s\<leftarrow>steps'. \<bar>adjustment s\<bar>) = sa"
        unfolding sa_def
        using sum_list_map_mset_cong [OF ms, of "\<lambda>s. \<bar>adjustment s\<bar>"]
              sum_waterfall_steps [of abs agg] by simp
      have s2: "(\<Sum>s\<leftarrow>steps'. adjustment s) = (\<Sum>d\<leftarrow>agg. adjustment d)"
        using sum_list_map_mset_cong [OF ms, of adjustment]
              sum_waterfall_steps [of "\<lambda>x. x" agg] by simp
      have "set steps' = set (waterfall_steps agg)" using ms by (rule mset_eq_setD)
      then have i: "\<forall>s\<in>set steps'. adjustment s \<in> \<int>"
        using ia set_waterfall_steps [of agg] by blast
      have "\<bar>T\<bar> + (\<Sum>s\<leftarrow>steps'. \<bar>adjustment s\<bar>) < 2 ^ 53"
        unfolding s1 t using abs_o bb by linarith
      from last_running_totals_ints [OF tz i this] show ?thesis unfolding p s2 .
    qed
    have "E = T + (\<Sum>d\<leftarrow>agg. adjustment d)" unfolding E_def by (rule e) simp
    with t e show ?thesis by simp
  qed
  from 1 l n 2 3 4 show ?thesis
    unfolding Let_def T_def [symmetric] steps_def [symmetric] E_def [symmetric] by blast
qed

theorem waterfall_sequence_invariant_witness:
  "map original example_summaries = [0, 200, 3]
   \<and> map adjustment example_summaries = [5, 0, - 3]
   \<and> (0::real) \<in> \<int> \<and> (200::real) \<in> \<int> \<and> (3::real) \<in> \<int> \<and> (5::real) \<in> \<int> \<and> (- 3::real) \<in> \<int>
   \<and> (\<Sum>d\<leftarrow>example_summaries. \<bar>original d\<bar>) + (\<Sum>d\<leftarrow>example_summaries. \<bar>adjustment d\<bar>) < 2 ^ 53
   \<and> mset (rev (waterfall_steps example_summaries)) = mset (waterfall_steps example_summaries)
   \<and> round_dp 0 (foldl (\<lambda>acc c. fl64 (acc + original c)) 0 example_summaries) = 203
   \<and> last (running_totals 0 203 (waterfall_steps example_summaries)) = 205
   \<and> last (running_totals 0 203 (rev (waterfall_steps example_summaries))) = 205"
proof -
  have i: "\<forall>d\<in>set example_summaries. original d \<in> \<int> \<and> adjustment d \<in> \<int>"
    by (simp add: example_summaries_def)
  have b: "(\<Sum>d\<leftarrow>example_summaries. \<bar>original d\<bar>)
           + (\<Sum>d\<leftarrow>example_summaries. \<bar>adjustment d\<bar>) < 2 ^ 53"
    by (simp add: example_summaries_def)
  have s: "(\<Sum>d\<leftarrow>example_summaries. original d) = 203"
          "(\<Sum>d\<leftarrow>example_summaries. adjustment d) = 2"
    by (simp_all add: example_summaries_def)
  have m: "mset (rev (waterfall_steps example_summaries)) = mset (waterfall_steps example_summaries)"
    by simp
  have h: "(0::int) = 0 \<and> (\<forall>d\<in>set example_summaries. original d \<in> \<int> \<and> adjustment d \<in> \<int>)
     \<and> (\<Sum>d\<leftarrow>example_summaries. \<bar>original d\<bar>)
         + (\<Sum>d\<leftarrow>example_summaries. \<bar>adjustment d\<bar>) < 2 ^ 53"
    using i b by blast
  note t = waterfall_sequence_invariant [of 0 example_summaries example_theme, unfolded Let_def]
  note c = t [THEN conjunct2, THEN conjunct2, THEN conjunct2, THEN mp, OF h]
  have w: "round_dp 0 (foldl (\<lambda>acc c. fl64 (acc + original c)) 0 example_summaries) = 203"
    using c [THEN conjunct1] unfolding s .
  have e: "last (running_totals 0 203 (waterfall_steps example_summaries)) = 205"
    using c [THEN conjunct2, THEN conjunct1] unfolding w s by simp
  have r: "last (running_totals 0 203 (rev (waterfall_steps example_summaries))) = 205"
    using c [THEN conjunct2, THEN conjunct2, THEN spec, THEN mp, OF m] unfolding w e .
  have v: "map original example_summaries = [0, 200, 3]"
          "map adjustment example_summaries = [5, 0, - 3]"
    by (simp_all add: example_summaries_def)
  have z: "(0::real) \<in> \<int>" "(200::real) \<in> \<int>" "(3::real) \<in> \<int>" "(5::real) \<in> \<int>" "(- 3::real) \<in> \<int>"
    by simp_all
  from v z b m w e r show ?thesis by blast
qed

theorem waterfall_end_depends_on_order_counterexample:
  "getWaterfallData example_theme 0 large_summaries =
     [Total ''Start (Origineel)'' 0 ''#94a3b8'',
      Step ''A'' (0, 2 ^ 53) (2 ^ 53) ''#dc2626'',
      Step ''B'' (2 ^ 53, 2 ^ 53) 1 ''#dc2626'',
      Step ''C'' (2 ^ 53, 2 ^ 53) 1 ''#dc2626'',
      Total ''Eind (Nieuw)'' (2 ^ 53) ''#0f172a'']
   \<and> 0 + (\<Sum>d\<leftarrow>large_summaries. adjustment d) = 2 ^ 53 + 2
   \<and> mset (rev (waterfall_steps large_summaries)) = mset (waterfall_steps large_summaries)
   \<and> last (running_totals 0 0 (rev (waterfall_steps large_summaries))) = 2 ^ 53 + 2
   \<and> last (running_totals 0 0 (waterfall_steps large_summaries)) = 2 ^ 53"
proof -
  have s: "waterfall_steps large_summaries = large_summaries"
    by (simp add: waterfall_steps_def large_summaries_def)
  have 1: "getWaterfallData example_theme 0 large_summaries =
     [Total ''Start (Origineel)'' 0 ''#94a3b8'',
      Step ''A'' (0, 2 ^ 53) (2 ^ 53) ''#dc2626'',
      Step ''B'' (2 ^ 53, 2 ^ 53) 1 ''#dc2626'',
      Step ''C'' (2 ^ 53, 2 ^ 53) 1 ''#dc2626'',
      Total ''Eind (Nieuw)'' (2 ^ 53) ''#0f172a'']"
    unfolding getWaterfallData_def s Let_def
    by (simp add: large_summaries_def waterfall_step_def example_theme_def round_eval)
  have 2: "0 + (\<Sum>d\<leftarrow>large_summaries. adjustment d) = 2 ^ 53 + 2"
    by (simp add: large_summaries_def)
  have 3: "last (running_totals 0 0 (rev (waterfall_steps large_summaries))) = 2 ^ 53 + 2"
    unfolding s by (simp add: large_summaries_def round_eval)
  have 4: "last (running_totals 0 0 (waterfall_steps large_summaries)) = 2 ^ 53"
    unfolding s by (simp add: large_summaries_def round_eval)
  have "mset (rev (waterfall_steps large_summaries)) = mset (waterfall_steps large_summaries)"
    by simp
  with 1 2 3 4 show ?thesis by blast
qed

text \<open>C3, as amended. \<open>round\<close> multiplies by the factor on binary64, takes the
  integer nearest to that product, and divides it by the factor on binary64. Of two
  equally near integers it takes the one towards \<open>+\<infinity>\<close>, not the one away from
  zero: at precision 0 every half of an integer goes up, the negative ones too, and at
  precision 2 the number \<open>0.005\<close> becomes 0.01 and \<open>-0.005\<close> becomes 0. What is
  rounded is the binary64 product, so that \<open>1.005\<close> becomes 1 (its product is below
  100.5) and \<open>2.675\<close> becomes 2.68 (its product is 267.5).\<close>

theorem round_nearest_ties_up:
  "(\<exists>n::int. round_dp p x = fl64 (of_int n / factor p)
          \<and> \<bar>of_int n - fl64 (x * factor p)\<bar> \<le> 1 / 2
          \<and> (\<bar>of_int n - fl64 (x * factor p)\<bar> = 1 / 2 \<longrightarrow> fl64 (x * factor p) < of_int n))
   \<and> (\<bar>i\<bar> < 2 ^ 53 \<longrightarrow> round_dp 0 (of_int i / 2) = of_int ((i + 1) div 2))
   \<and> round_dp 2 (fl64 (5 / 1000)) = fl64 (1 / 100)
   \<and> round_dp 2 (- fl64 (5 / 1000)) = 0
   \<and> round_dp 2 (fl64 (1005 / 1000)) = 1
   \<and> round_dp 2 (fl64 (2675 / 1000)) = fl64 (268 / 100)"
proof -
  define y where "y = fl64 (x * factor p)"
  let ?n = "\<lfloor>y + 1 / 2\<rfloor>"
  have "round_dp p x = fl64 (of_int ?n / factor p)"
    by (simp add: round_dp_def Math_round_def y_def)
  moreover have "\<bar>of_int ?n - y\<bar> \<le> 1 / 2" by linarith
  moreover have "\<bar>of_int ?n - y\<bar> = 1 / 2 \<longrightarrow> y < of_int ?n" by linarith
  ultimately have 1: "\<exists>n::int. round_dp p x = fl64 (of_int n / factor p)
          \<and> \<bar>of_int n - fl64 (x * factor p)\<bar> \<le> 1 / 2
          \<and> (\<bar>of_int n - fl64 (x * factor p)\<bar> = 1 / 2 \<longrightarrow> fl64 (x * factor p) < of_int n)"
    unfolding y_def by blast
  have 2: "round_dp 0 (of_int i / 2) = of_int ((i + 1) div 2)" if h: "\<bar>i\<bar> < 2 ^ 53"
  proof -
    have "of_int i / 2 + 1 / 2 = (of_int (i + 1) :: real) / of_int 2" by simp
    then have "\<lfloor>of_int i / 2 + 1 / 2 :: real\<rfloor> = (i + 1) div 2"
      by (simp only: floor_divide_of_int_eq)
    then show ?thesis using round_dp_0_half_int [OF h] by simp
  qed
  have 3: "round_dp 2 (fl64 (5 / 1000)) = fl64 (1 / 100)"
          "round_dp 2 (- fl64 (5 / 1000)) = 0"
          "round_dp 2 (fl64 (1005 / 1000)) = 1"
          "round_dp 2 (fl64 (2675 / 1000)) = fl64 (268 / 100)"
    by (simp_all add: round_eval)
  from 1 2 3 show ?thesis by blast
qed

theorem round_nearest_ties_up_witness:
  "\<bar>- 3 :: int\<bar> < 2 ^ 53 \<and> round_dp 0 (of_int (- 3) / 2) = - 1
   \<and> \<bar>- 1 :: int\<bar> < 2 ^ 53 \<and> round_dp 0 (of_int (- 1) / 2) = 0"
  using round_nearest_ties_up [of 0 0 "- 3"] round_nearest_ties_up [of 0 0 "- 1"] by simp

theorem round_ties_away_counterexample:
  "round_dp 2 (- fl64 (5 / 1000)) = 0 \<and> round_dp 2 (- fl64 (5 / 1000)) \<noteq> - fl64 (1 / 100)"
  by (simp add: round_eval)




text \<open>C5. The example of the specification. The lines A 100 +10, A 50 -5 and B 200 0
  at precision 2 give the summaries A (150, 155, +5) and B (200, 200, 0); the later
  version holds them with B first, the larger \<open>final\<close>. The delta view is the summary
  of A alone. The waterfall starts at the total 350, has one step for A with adjustment
  5 and range 350 to 355, and ends at the total 355.\<close>

theorem example_of_the_specification:
  "aggregatedData 2 example_lines =
     [\<lparr>name = ''A'', original = 150, final = 155, adjustment = 5\<rparr>,
      \<lparr>name = ''B'', original = 200, final = 200, adjustment = 0\<rparr>]
   \<and> aggregatedData_sorted 2 None example_lines =
     [\<lparr>name = ''B'', original = 200, final = 200, adjustment = 0\<rparr>,
      \<lparr>name = ''A'', original = 150, final = 155, adjustment = 5\<rparr>]
   \<and> deltaData (aggregatedData 2 example_lines) =
     [\<lparr>name = ''A'', original = 150, final = 155, adjustment = 5\<rparr>]
   \<and> getWaterfallData theme 2 (aggregatedData_sorted 2 None example_lines) =
     [Total ''Start (Origineel)'' 350 ''#94a3b8'',
      Step ''A'' (350, 355) 5 (highRisk theme),
      Total ''Eind (Nieuw)'' 355 (primary theme)]"
proof -
  have a: "aggregatedData 2 example_lines =
     [\<lparr>name = ''A'', original = 150, final = 155, adjustment = 5\<rparr>,
      \<lparr>name = ''B'', original = 200, final = 200, adjustment = 0\<rparr>]"
    by (simp add: example_lines_def aggregatedData_def reduce_step_def round_eval)
  have b: "aggregatedData_sorted 2 None example_lines =
     [\<lparr>name = ''B'', original = 200, final = 200, adjustment = 0\<rparr>,
      \<lparr>name = ''A'', original = 150, final = 155, adjustment = 5\<rparr>]"
    by (simp add: aggregatedData_sorted_def injectInvestment_def a)
  have c: "deltaData (aggregatedData 2 example_lines) =
     [\<lparr>name = ''A'', original = 150, final = 155, adjustment = 5\<rparr>]"
    by (simp add: deltaData_def a)
  have d: "getWaterfallData theme 2 (aggregatedData_sorted 2 None example_lines) =
     [Total ''Start (Origineel)'' 350 ''#94a3b8'',
      Step ''A'' (350, 355) 5 (highRisk theme),
      Total ''Eind (Nieuw)'' 355 (primary theme)]"
    by (simp add: b getWaterfallData_def waterfall_steps_def waterfall_step_def round_eval)
  from a b c d show ?thesis by simp
qed

text \<open>C6. The delta view holds exactly the summaries whose adjustment has a positive
  absolute value, each as often as in the input, in the order of descending adjustment.
  No summary of it has the adjustment 0. It is empty for the empty list and whenever
  every adjustment is 0.\<close>

theorem deltaData_filtered_sorted:
  "mset (deltaData agg) = filter_mset (\<lambda>d. \<bar>adjustment d\<bar> > 0) (mset agg)
   \<and> sorted_wrt (\<lambda>a b. adjustment a \<ge> adjustment b) (deltaData agg)
   \<and> (\<forall>d\<in>set (deltaData agg). adjustment d \<noteq> 0)
   \<and> deltaData [] = []
   \<and> ((\<forall>d\<in>set agg. adjustment d = 0) \<longrightarrow> deltaData agg = [])"
proof -
  have 1: "mset (deltaData agg) = filter_mset (\<lambda>d. \<bar>adjustment d\<bar> > 0) (mset agg)"
    by (simp add: deltaData_def)
  have 2: "sorted_wrt (\<lambda>a b. adjustment a \<ge> adjustment b) (deltaData agg)"
    unfolding deltaData_def by (rule sorted_desc_sort_key)
  have 3: "\<forall>d\<in>set (deltaData agg). adjustment d \<noteq> 0"
    by (auto simp: deltaData_def)
  have 4: "deltaData [] = []" by (simp add: deltaData_def)
  have 5: "(\<forall>d\<in>set agg. adjustment d = 0) \<longrightarrow> deltaData agg = []"
  proof
    assume "\<forall>d\<in>set agg. adjustment d = 0"
    then have "filter (\<lambda>d. \<bar>adjustment d\<bar> > 0) agg = []" by (simp add: filter_empty_conv)
    then show "deltaData agg = []" by (simp add: deltaData_def)
  qed
  from 1 2 3 4 5 show ?thesis by blast
qed

theorem deltaData_filtered_sorted_witness:
  "deltaData example_summaries =
     [\<lparr>name = ''A'', original = 0, final = 5, adjustment = 5\<rparr>,
      \<lparr>name = ''C'', original = 3, final = 0, adjustment = - 3\<rparr>]
   \<and> adjustment \<lparr>name = ''A'', original = 0, final = 5, adjustment = 5\<rparr> \<noteq> 0"
  using deltaData_filtered_sorted [of example_summaries]
  by (simp add: deltaData_def example_summaries_def)

text \<open>C7. Every node of the treemap has a positive \<open>final\<close>, which is its size, and
  the nodes are the summaries with positive \<open>final\<close>, in their order. In both stacked
  rows every number is positive; and a category key is in the row of the originals
  exactly when a summary of that name has a positive \<open>original\<close>, in the row of the
  finals exactly when one has a positive \<open>final\<close>: a summary is left out row by row.\<close>

theorem no_non_positive_magnitude:
  "(\<forall>n\<in>set (treemapData agg). 0 < final n \<and> size_key n = final n)
   \<and> map CategorySummary.truncate (treemapData agg) = filter (\<lambda>d. 0 < final d) agg
   \<and> (\<forall>k v. fst (getStackedData agg) k = Some (Num v) \<longrightarrow> 0 < v)
   \<and> (\<forall>k v. snd (getStackedData agg) k = Some (Num v) \<longrightarrow> 0 < v)
   \<and> (\<forall>k. k \<noteq> ''name'' \<and> k \<noteq> ''__proto__'' \<longrightarrow>
          (k \<in> dom (fst (getStackedData agg)) \<longleftrightarrow> (\<exists>d\<in>set agg. name d = k \<and> 0 < original d)) \<and>
          (k \<in> dom (snd (getStackedData agg)) \<longleftrightarrow> (\<exists>d\<in>set agg. name d = k \<and> 0 < final d)))"
proof (intro conjI allI impI)
  show "\<forall>n\<in>set (treemapData agg). 0 < final n \<and> size_key n = final n"
    by (rule treemap_positive)
  show "map CategorySummary.truncate (treemapData agg) = filter (\<lambda>d. 0 < final d) agg"
    by (rule treemap_names)
  show "0 < v" if "fst (getStackedData agg) k = Some (Num v)" for k v
    using stacked_positive [of agg] that by blast
  show "0 < v" if "snd (getStackedData agg) k = Some (Num v)" for k v
    using stacked_positive [of agg] that by blast
  show "k \<in> dom (fst (getStackedData agg)) \<longleftrightarrow> (\<exists>d\<in>set agg. name d = k \<and> 0 < original d)"
    if "k \<noteq> ''name'' \<and> k \<noteq> ''__proto__''" for k
    using stacked_keys [of k agg] that by simp
  show "k \<in> dom (snd (getStackedData agg)) \<longleftrightarrow> (\<exists>d\<in>set agg. name d = k \<and> 0 < final d)"
    if "k \<noteq> ''name'' \<and> k \<noteq> ''__proto__''" for k
    using stacked_keys [of k agg] that by simp
qed

theorem no_non_positive_magnitude_witness:
  "fst (getStackedData example_summaries) ''C'' = Some (Num 3)
   \<and> snd (getStackedData example_summaries) ''C'' = None
   \<and> fst (getStackedData example_summaries) ''A'' = None
   \<and> snd (getStackedData example_summaries) ''A'' = Some (Num 5)
   \<and> (0::real) < 3 \<and> (0::real) < 5
   \<and> map name (treemapData example_summaries) = [''A'', ''B'']"
proof -
  have e: "fst (getStackedData example_summaries) ''C'' = Some (Num 3)
   \<and> snd (getStackedData example_summaries) ''C'' = None
   \<and> fst (getStackedData example_summaries) ''A'' = None
   \<and> snd (getStackedData example_summaries) ''A'' = Some (Num 5)
   \<and> map name (treemapData example_summaries) = [''A'', ''B'']"
    by (simp add: getStackedData_def stacked_step_def setProp_def treemapData_def
                  example_summaries_def)
  from no_non_positive_magnitude [of example_summaries]
  have "\<forall>k v. fst (getStackedData example_summaries) k = Some (Num v) \<longrightarrow> 0 < v"
       "\<forall>k v. snd (getStackedData example_summaries) k = Some (Num v) \<longrightarrow> 0 < v"
    by simp_all
  with e have "(0::real) < 3" "(0::real) < 5" by blast+
  with e show ?thesis by simp
qed

text \<open>C8. A line of the category \<open>Nieuwe Investering\<close> together with a positive
  new investment: the reduction makes one summary of that name, the synthetic summary
  is appended without a look at the names, and the array holds two summaries of one
  name.\<close>

theorem investment_name_collision:
  "aggregatedData_sorted 0 (Some 50) colliding_line =
     [\<lparr>name = ''Nieuwe Investering'', original = 100, final = 100, adjustment = 0\<rparr>,
      \<lparr>name = ''Nieuwe Investering'', original = 0, final = 50, adjustment = 50\<rparr>]
   \<and> \<not> distinct (map name (aggregatedData_sorted 0 (Some 50) colliding_line))"
proof -
  have "aggregatedData_sorted 0 (Some 50) colliding_line =
     [\<lparr>name = ''Nieuwe Investering'', original = 100, final = 100, adjustment = 0\<rparr>,
      \<lparr>name = ''Nieuwe Investering'', original = 0, final = 50, adjustment = 50\<rparr>]"
    by (simp add: colliding_line_def aggregatedData_sorted_def injectInvestment_def
        aggregatedData_def reduce_step_def round_eval)
  then show ?thesis by simp
qed




text \<open>C10. Rounding again after every addition is not rounding each line once. The
  lines \<open>1\<close> and \<open>0.005\<close> of the category A at precision 2: the accumulator 1 is a
  multiple of the unit, which \<open>round\<close> leaves as it is, and \<open>round(1 + 0.005)\<close> is 1
  again, while the two lines rounded once are 1 and 0.01 and add up to more than 1,
  exactly and on binary64. The summary of the code has the original 1 and the final
  1.01 though every adjustment is 0; the summary of the lines rounded once has 1.01
  twice.\<close>

theorem rerounding_is_not_rounding_once:
  "map original (aggregatedData 2 tie_lines) = [1]
   \<and> map final (aggregatedData 2 tie_lines) = [fl64 (101 / 100)]
   \<and> map adjustment (aggregatedData 2 tie_lines) = [0]
   \<and> round_dp 2 1 = 1
   \<and> round_dp 2 (fl64 (1 + fl64 (5 / 1000))) = 1
   \<and> original (summary_of 2 tie_lines ''A'') = 1 + fl64 (1 / 100)
   \<and> final (summary_of 2 tie_lines ''A'') = 1 + fl64 (1 / 100)
   \<and> 1 + fl64 (1 / 100) \<noteq> 1
   \<and> fl64 (1 + fl64 (1 / 100)) \<noteq> 1
   \<and> map original (aggregatedData 2 tie_lines) \<noteq> [original (summary_of 2 tie_lines ''A'')]"
proof -
  have a: "aggregatedData 2 tie_lines =
       [\<lparr>name = ''A'', original = 1, final = fl64 (101 / 100), adjustment = 0\<rparr>]"
    by (simp add: aggregatedData_def reduce_step_def tie_lines_def round_eval)
  have r: "round_dp 2 1 = 1" "round_dp 2 (fl64 (1 + fl64 (5 / 1000))) = 1"
    by (simp_all add: round_eval)
  have s: "original (summary_of 2 tie_lines ''A'') = 1 + fl64 (1 / 100)"
          "final (summary_of 2 tie_lines ''A'') = 1 + fl64 (1 / 100)"
    by (simp_all add: summary_of_def lines_of_def tie_lines_def round_eval)
  have c: "1 + fl64 (1 / 100) \<noteq> 1" "fl64 (1 + fl64 (1 / 100)) \<noteq> 1"
    by (simp_all add: fl64_numeral)
  have d: "map original (aggregatedData 2 tie_lines) \<noteq> [original (summary_of 2 tie_lines ''A'')]"
    unfolding a s using c by simp
  from a r s c d show ?thesis by simp
qed

end
